theory Spec2Isabelle
  imports Main
begin

section \<open>The document the helpers of events.js work on\<close>

text \<open>
  The four functions of \<^verbatim>\<open>templates/static/js/events.js\<close> read and write properties of
  DOM elements. An element is modelled by the properties the code touches and by its
  element children:
  \<^item> \<open>tagName\<close> (lower case), \<open>el_id\<close> (the id attribute, empty when there is none) and
    \<open>classList\<close> (the class tokens in order) are what the selectors and the lookup by id
    inspect;
  \<^item> \<open>el_value\<close> is the string read as \<^verbatim>\<open>.value\<close>, \<open>checked\<close> the checkedness of an
    input, \<open>style_display\<close> the string read as \<^verbatim>\<open>.style.display\<close> (empty when no inline
    display was set) and \<open>innerText\<close> the string read as \<^verbatim>\<open>.innerText\<close>.
  A JavaScript string is a list of code units; the model covers the code units below 256
  (\<^typ>\<open>char\<close>). Every element carries all of these properties, as the form controls
  and table cells the functions are applied to do. The text of a cell is a stored property
  of the cell: the way a browser derives it from the rendered subtree is outside the model.
\<close>

record properties =
  tagName :: string
  el_id :: string
  classList :: "string list"
  el_value :: string
  checked :: bool
  style_display :: string
  innerText :: string

datatype element = Element (props: properties) (children: "element list")

type_synonym document = element

text \<open>
  A reference to an element is its position in the document: the indices of the
  children to descend into from the root. A reference that leads nowhere stands for
  \<^verbatim>\<open>null\<close> or \<^verbatim>\<open>undefined\<close>, as \<^verbatim>\<open>row.children[k]\<close> is for \<open>k\<close> out of range.
\<close>

type_synonym ref = "nat list"

fun deref :: "element \<Rightarrow> ref \<Rightarrow> element option" where
  "deref e [] = Some e"
| "deref (Element a cs) (i # p) = (if i < length cs then deref (cs ! i) p else None)"

definition read :: "document \<Rightarrow> ref \<Rightarrow> properties option" where
  "read doc r = map_option props (deref doc r)"

text \<open>A property assignment \<^verbatim>\<open>el.p = v\<close> through a reference: the tree keeps its shape.\<close>

fun modify :: "ref \<Rightarrow> (properties \<Rightarrow> properties) \<Rightarrow> element \<Rightarrow> element" where
  "modify [] f (Element a cs) = Element (f a) cs"
| "modify (i # p) f (Element a cs) =
     (if i < length cs then Element a (cs[i := modify p f (cs ! i)]) else Element a cs)"

text \<open>All elements of a subtree in document order (preorder), the root first.\<close>

fun refs :: "element \<Rightarrow> ref list"
  and refs_list :: "nat \<Rightarrow> element list \<Rightarrow> ref list" where
  "refs (Element a cs) = [] # refs_list 0 cs"
| "refs_list i [] = []"
| "refs_list i (c # cs) = map ((#) i) (refs c) @ refs_list (Suc i) cs"

text \<open>
  \<^verbatim>\<open>document.getElementById(id)\<close>: the first element in document order with that id,
  \<^verbatim>\<open>null\<close> (here \<open>None\<close>) when there is none. The empty string is no id.
\<close>

definition getElementById :: "document \<Rightarrow> string \<Rightarrow> ref option" where
  "getElementById doc i =
     (if i = [] then None
      else find (\<lambda>r. map_option el_id (read doc r) = Some i) (refs doc))"

text \<open>
  The selectors the code uses: \<^verbatim>\<open>input.event-checkbox\<close>, \<^verbatim>\<open>.filter-input\<close>,
  \<^verbatim>\<open>tbody tr\<close> and \<^verbatim>\<open>input.event-checkbox:checked\<close>. The ancestors of an element are
  the proper prefixes of its reference; as in the DOM, an ancestor that a descendant
  combinator asks for may lie above the element the query starts from. The pseudo-class
  \<^verbatim>\<open>:checked\<close> is the checkedness of the element, the inputs it is asked of being
  checkboxes.
\<close>

datatype selector =
  Tag string
  | Class string
  | Checked
  | Compound selector selector
  | Descendant selector selector

fun matches :: "document \<Rightarrow> selector \<Rightarrow> ref \<Rightarrow> bool" where
  "matches doc (Tag t) r = (case read doc r of None \<Rightarrow> False | Some a \<Rightarrow> tagName a = t)"
| "matches doc (Class c) r =
     (case read doc r of None \<Rightarrow> False | Some a \<Rightarrow> c \<in> set (classList a))"
| "matches doc Checked r = (case read doc r of None \<Rightarrow> False | Some a \<Rightarrow> checked a)"
| "matches doc (Compound s t) r = (matches doc s r \<and> matches doc t r)"
| "matches doc (Descendant s t) r =
     (matches doc t r \<and> list_ex (\<lambda>k. matches doc s (take k r)) [0..<length r])"

definition input_event_checkbox :: selector where
  "input_event_checkbox = Compound (Tag ''input'') (Class ''event-checkbox'')"

definition filter_input :: selector where
  "filter_input = Class ''filter-input''"

definition tbody_tr :: selector where
  "tbody_tr = Descendant (Tag ''tbody'') (Tag ''tr'')"

definition input_event_checkbox_checked :: selector where
  "input_event_checkbox_checked = Compound input_event_checkbox Checked"

text \<open>
  \<^verbatim>\<open>el.querySelectorAll(sel)\<close>: the descendants of \<open>el\<close> (not \<open>el\<close> itself) that match, in
  document order, as a static list.
\<close>

definition querySelectorAll :: "document \<Rightarrow> ref \<Rightarrow> selector \<Rightarrow> ref list" where
  "querySelectorAll doc el sel =
     (case deref doc el of
        None \<Rightarrow> []
      | Some e \<Rightarrow> filter (matches doc sel) (map ((@) el) (tl (refs e))))"

text \<open>
  \<^verbatim>\<open>classList.add\<close> and \<^verbatim>\<open>classList.remove\<close> on the ordered token set of an element.
\<close>

definition classList_add :: "string \<Rightarrow> properties \<Rightarrow> properties" where
  "classList_add t a =
     (if t \<in> set (classList a) then a else a\<lparr>classList := classList a @ [t]\<rparr>)"

definition classList_remove :: "string \<Rightarrow> properties \<Rightarrow> properties" where
  "classList_remove t a = a\<lparr>classList := removeAll t (classList a)\<rparr>"

text \<open>
  How a call ends: normally, or with an exception thrown. Either way the document is
  left as the assignments made so far have changed it. The only exception these
  functions can raise is the \<^verbatim>\<open>TypeError\<close> of reading or writing a property of
  \<^verbatim>\<open>null\<close> or \<^verbatim>\<open>undefined\<close>.
\<close>

datatype fault = TypeError

datatype completion = Normal document | Throw fault document


section \<open>Collapse and expand sections\<close>

text \<open>
  \<^verbatim>\<open>
  function toggleSection(sectionId, iconId) {
      const section = document.getElementById(sectionId);
      const icon = document.getElementById(iconId);
      if (section.style.display === "none") {
          section.style.display = "block";
          icon.classList.add("open");
      } else {
          section.style.display = "none";
          icon.classList.remove("open");
      }
  }
  \<close>
\<close>

definition toggleSection :: "string \<Rightarrow> string \<Rightarrow> document \<Rightarrow> completion" where
  "toggleSection sectionId iconId doc =
     (let section = getElementById doc sectionId;
          icon = getElementById doc iconId
      in case section of
           None \<Rightarrow> Throw TypeError doc
         | Some s \<Rightarrow>
             (case read doc s of
                None \<Rightarrow> Throw TypeError doc
              | Some sp \<Rightarrow>
                  if style_display sp = ''none'' then
                    (let doc1 = modify s (style_display_update (\<lambda>_. ''block'')) doc
                     in case icon of
                          None \<Rightarrow> Throw TypeError doc1
                        | Some i \<Rightarrow> Normal (modify i (classList_add ''open'') doc1))
                  else
                    (let doc1 = modify s (style_display_update (\<lambda>_. ''none'')) doc
                     in case icon of
                          None \<Rightarrow> Throw TypeError doc1
                        | Some i \<Rightarrow> Normal (modify i (classList_remove ''open'') doc1))))"

section \<open>Select all for bulk actions\<close>

text \<open>
  \<^verbatim>\<open>
  function toggleSelectAll(checkbox, tableId) {
      const checked = checkbox.checked;
      const table = document.getElementById(tableId);
      const rows = table.querySelectorAll("input.event-checkbox");
      rows.forEach(cb => cb.checked = checked);
  }
  \<close>
  The source checkbox is passed as a reference into the document; its \<open>checked\<close> is read
  before anything is written.
\<close>

definition toggleSelectAll :: "ref \<Rightarrow> string \<Rightarrow> document \<Rightarrow> completion" where
  "toggleSelectAll checkbox tableId doc =
     (case read doc checkbox of
        None \<Rightarrow> Throw TypeError doc
      | Some cp \<Rightarrow>
          (let checked' = checked cp;
               table = getElementById doc tableId
           in case table of
                None \<Rightarrow> Throw TypeError doc
              | Some t \<Rightarrow>
                  (let rows = querySelectorAll doc t input_event_checkbox
                   in Normal (foldl (\<lambda>d cb. modify cb (checked_update (\<lambda>_. checked')) d)
                                doc rows))))"

section \<open>Column filters\<close>

text \<open>
  \<^verbatim>\<open>String.prototype.toLowerCase\<close> on code units below 256: the letters A to Z and the
  Latin-1 capitals U+00C0 to U+00DE (without the multiplication sign U+00D7) move up by 32.
\<close>

definition toLowerCase_unit :: "char \<Rightarrow> char" where
  "toLowerCase_unit c =
     (let n = (of_char c :: nat)
      in if (65 \<le> n \<and> n \<le> 90) \<or> (192 \<le> n \<and> n \<le> 222 \<and> n \<noteq> 215)
         then char_of (n + 32) else c)"

definition toLowerCase :: "string \<Rightarrow> string" where
  "toLowerCase s = map toLowerCase_unit s"

text \<open>\<^verbatim>\<open>s.includes(t)\<close>: \<open>t\<close> occurs in \<open>s\<close> at some start position.\<close>

fun startsWith :: "string \<Rightarrow> string \<Rightarrow> bool" where
  "startsWith s [] = True"
| "startsWith [] (c # t) = False"
| "startsWith (x # s) (c # t) = (x = c \<and> startsWith s t)"

fun includes_str :: "string \<Rightarrow> string \<Rightarrow> bool" where
  "includes_str [] t = (t = [])"
| "includes_str (x # s) t = (startsWith (x # s) t \<or> includes_str s t)"

text \<open>
  \<^verbatim>\<open>
  function filterTable(tableId) {
      const table = document.getElementById(tableId);
      const filters = table.querySelectorAll(".filter-input");
      const rows = table.querySelectorAll("tbody tr");
      rows.forEach(row => {
          let visible = true;
          filters.forEach((filter, idx) => {
              const filterValue = filter.value.toLowerCase();
              const cell = row.children[idx + 1]; // skip checkbox column
              if (filterValue && !cell.innerText.toLowerCase().includes(filterValue)) {
                  visible = false;
              }
          });
          row.style.display = visible ? "" : "none";
      });
  }
  \<close>
  The inner loop carries the index and the flag \<open>visible\<close>. \<^verbatim>\<open>cell.innerText\<close> is
  evaluated only when \<^verbatim>\<open>filterValue\<close> is a non-empty string; there a missing cell
  (\<^verbatim>\<open>undefined\<close>) throws, which ends both loops with the rows before this one already
  written.
\<close>

fun forEach_filters :: "document \<Rightarrow> ref \<Rightarrow> ref list \<Rightarrow> nat \<Rightarrow> bool \<Rightarrow> fault + bool" where
  "forEach_filters doc row [] idx visible = Inr visible"
| "forEach_filters doc row (filter_el # filters) idx visible =
     (case read doc filter_el of
        None \<Rightarrow> Inl TypeError
      | Some fp \<Rightarrow>
          (let filterValue = toLowerCase (el_value fp);
               cell = row @ [idx + 1]
           in if filterValue \<noteq> [] then
                (case read doc cell of
                   None \<Rightarrow> Inl TypeError
                 | Some cp \<Rightarrow>
                     if \<not> includes_str (toLowerCase (innerText cp)) filterValue
                     then forEach_filters doc row filters (idx + 1) False
                     else forEach_filters doc row filters (idx + 1) visible)
              else forEach_filters doc row filters (idx + 1) visible))"

fun forEach_rows :: "ref list \<Rightarrow> ref list \<Rightarrow> document \<Rightarrow> completion" where
  "forEach_rows filters [] doc = Normal doc"
| "forEach_rows filters (row # rows) doc =
     (case forEach_filters doc row filters 0 True of
        Inl e \<Rightarrow> Throw e doc
      | Inr visible \<Rightarrow>
          forEach_rows filters rows
            (modify row (style_display_update (\<lambda>_. if visible then [] else ''none'')) doc))"

definition filterTable :: "string \<Rightarrow> document \<Rightarrow> completion" where
  "filterTable tableId doc =
     (case getElementById doc tableId of
        None \<Rightarrow> Throw TypeError doc
      | Some table \<Rightarrow>
          (let filters = querySelectorAll doc table filter_input;
               rows = querySelectorAll doc table tbody_tr
           in forEach_rows filters rows doc))"

section \<open>Bulk assign: collect the selected ids\<close>

text \<open>
  \<^verbatim>\<open>JSON.stringify\<close> of an array of strings: the quoted elements, separated by commas,
  in square brackets. Quoting escapes the double quote, the backslash and the control
  characters below U+0020.
\<close>

definition hex_digit :: "nat \<Rightarrow> char" where
  "hex_digit n = ''0123456789abcdef'' ! (n mod 16)"

definition quote_unit :: "char \<Rightarrow> string" where
  "quote_unit c =
     (let n = (of_char c :: nat)
      in if n = 8 then [CHR 0x5C, CHR ''b'']
         else if n = 9 then [CHR 0x5C, CHR ''t'']
         else if n = 10 then [CHR 0x5C, CHR ''n'']
         else if n = 12 then [CHR 0x5C, CHR ''f'']
         else if n = 13 then [CHR 0x5C, CHR ''r'']
         else if n = 34 then [CHR 0x5C, CHR 0x22]
         else if n = 92 then [CHR 0x5C, CHR 0x5C]
         else if n < 32 then
           [CHR 0x5C, CHR ''u'', CHR ''0'', CHR ''0'', hex_digit (n div 16), hex_digit n]
         else [c])"

definition QuoteJSONString :: "string \<Rightarrow> string" where
  "QuoteJSONString s = CHR 0x22 # concat (map quote_unit s) @ [CHR 0x22]"

fun join :: "string \<Rightarrow> string list \<Rightarrow> string" where
  "join sep [] = []"
| "join sep [x] = x"
| "join sep (x # y # ys) = x @ sep @ join sep (y # ys)"

definition JSON_stringify :: "string list \<Rightarrow> string" where
  "JSON_stringify ids = ''['' @ join '','' (map QuoteJSONString ids) @ '']''"

text \<open>
  \<^verbatim>\<open>
  function collectBulkIds(tableId, hiddenInputId) {
      const table = document.getElementById(tableId);
      const checkboxes = table.querySelectorAll("input.event-checkbox:checked");
      const ids = [...checkboxes].map(cb => cb.value);
      document.getElementById(hiddenInputId).value = JSON.stringify(ids);
  }
  \<close>
\<close>

fun map_value :: "document \<Rightarrow> ref list \<Rightarrow> fault + string list" where
  "map_value doc [] = Inr []"
| "map_value doc (cb # cbs) =
     (case read doc cb of
        None \<Rightarrow> Inl TypeError
      | Some a \<Rightarrow>
          (case map_value doc cbs of
             Inl e \<Rightarrow> Inl e
           | Inr vs \<Rightarrow> Inr (el_value a # vs)))"

definition collectBulkIds :: "string \<Rightarrow> string \<Rightarrow> document \<Rightarrow> completion" where
  "collectBulkIds tableId hiddenInputId doc =
     (case getElementById doc tableId of
        None \<Rightarrow> Throw TypeError doc
      | Some table \<Rightarrow>
          (let checkboxes = querySelectorAll doc table input_event_checkbox_checked
           in case map_value doc checkboxes of
                Inl e \<Rightarrow> Throw e doc
              | Inr ids \<Rightarrow>
                  (case getElementById doc hiddenInputId of
                     None \<Rightarrow> Throw TypeError doc
                   | Some h \<Rightarrow>
                       Normal (modify h (el_value_update (\<lambda>_. JSON_stringify ids)) doc))))"

section \<open>Observing the document by id\<close>

definition display_of :: "document \<Rightarrow> string \<Rightarrow> string option" where
  "display_of doc i =
     (case getElementById doc i of
        None \<Rightarrow> None
      | Some r \<Rightarrow> map_option style_display (read doc r))"

definition classes_of :: "document \<Rightarrow> string \<Rightarrow> string set option" where
  "classes_of doc i =
     (case getElementById doc i of
        None \<Rightarrow> None
      | Some r \<Rightarrow> map_option (\<lambda>a. set (classList a)) (read doc r))"

definition value_of :: "document \<Rightarrow> string \<Rightarrow> string option" where
  "value_of doc i =
     (case getElementById doc i of
        None \<Rightarrow> None
      | Some r \<Rightarrow> map_option el_value (read doc r))"

definition has_class :: "document \<Rightarrow> string \<Rightarrow> string \<Rightarrow> bool option" where
  "has_class doc i c = map_option (\<lambda>cl. c \<in> cl) (classes_of doc i)"

section \<open>Example pages\<close>

text \<open>
  A page with a collapsible section \<^verbatim>\<open>sec\<close> and its icon \<^verbatim>\<open>icon\<close>, for a given inline
  display of the section and given classes of the icon.
\<close>

definition node :: "string \<Rightarrow> string \<Rightarrow> string list \<Rightarrow> element list \<Rightarrow> element" where
  "node t i cl cs =
     Element \<lparr>tagName = t, el_id = i, classList = cl, el_value = [], checked = False,
              style_display = [], innerText = []\<rparr> cs"

definition section_page :: "string \<Rightarrow> string list \<Rightarrow> document" where
  "section_page d cl =
     node ''body'' [] []
       [Element \<lparr>tagName = ''div'', el_id = ''sec'', classList = [], el_value = [],
                 checked = False, style_display = d, innerText = ''Details''\<rparr> [],
        node ''span'' ''icon'' cl []]"

text \<open>
  A page with the events table \<^verbatim>\<open>events\<close>: a header row with the select-all checkbox
  and one filter input per given filter value, four body rows (a checkbox cell and a name
  cell each; the last row is hidden), and the hidden input \<^verbatim>\<open>bulk-ids\<close>.
\<close>

definition input :: "string \<Rightarrow> string list \<Rightarrow> string \<Rightarrow> bool \<Rightarrow> element" where
  "input i cl v c =
     Element \<lparr>tagName = ''input'', el_id = i, classList = cl, el_value = v, checked = c,
              style_display = [], innerText = []\<rparr> []"

definition td :: "string \<Rightarrow> element list \<Rightarrow> element" where
  "td txt cs =
     Element \<lparr>tagName = ''td'', el_id = [], classList = [], el_value = [], checked = False,
              style_display = [], innerText = txt\<rparr> cs"

definition event_row :: "string \<Rightarrow> string \<Rightarrow> bool \<Rightarrow> string \<Rightarrow> element" where
  "event_row d v c name =
     Element \<lparr>tagName = ''tr'', el_id = [], classList = [], el_value = [], checked = False,
              style_display = d, innerText = name\<rparr>
       [td [] [input [] [''event-checkbox''] v c], td name []]"

definition events_page :: "string list \<Rightarrow> document" where
  "events_page filterValues =
     node ''body'' [] []
       [input ''bulk-ids'' [] [] False,
        node ''table'' ''events'' []
          [node ''thead'' [] []
             [node ''tr'' [] []
                (node ''th'' [] [] [input ''select-all'' [] ''on'' True]
                 # map (\<lambda>v. node ''th'' [] [] [input [] [''filter-input''] v False])
                     filterValues)],
           node ''tbody'' [] []
             [event_row [] ''7'' True ''Alice'',
              event_row [] ''5'' False ''Bob'',
              event_row [] ''3'' True ''Alisha'',
              event_row ''none'' ''9'' True ''Carol'']]]"

text \<open>A page whose table has two rows, none selected, and a hidden input with an old value.\<close>

definition unselected_page :: document where
  "unselected_page =
     node ''body'' [] []
       [node ''table'' ''events'' []
          [node ''tbody'' [] []
             [event_row [] ''12'' False ''Dana'',
              event_row [] ''47'' False ''Eli'']],
        input ''bulk-ids'' [] ''stale'' False]"

section \<open>Notions used in the proofs\<close>

text \<open>
  A selector is static when it does not look at the checkedness. Two documents are in
  the relation \<open>frame g\<close> when they have the same shape and their elements agree up to
  what \<open>g\<close> erases.
\<close>

fun static :: "selector \<Rightarrow> bool" where
  "static (Tag t) = True"
| "static (Class c) = True"
| "static Checked = False"
| "static (Compound s t) = (static s \<and> static t)"
| "static (Descendant s t) = (static s \<and> static t)"

definition frame :: "(properties \<Rightarrow> properties) \<Rightarrow> document \<Rightarrow> document \<Rightarrow> bool" where
  "frame g d d' \<longleftrightarrow>
     (\<forall>q. map_option refs (deref d q) = map_option refs (deref d' q))
     \<and> (\<forall>q. map_option g (read d q) = map_option g (read d' q))"

text \<open>
  For the column filter: \<open>cell_available\<close> says that evaluating one filter on one row
  does not throw (the filter input exists, and the cell exists unless the filter value is
  empty); \<open>filter_accepts\<close> is the test one filter makes on one row. \<open>row_display\<close> is
  the assignment the outer loop makes to a row, \<open>processed\<close> the rows it reaches before
  an exception, and \<open>undisplay\<close> erases the one property the function writes.
\<close>

definition cell_available :: "document \<Rightarrow> ref \<Rightarrow> ref \<Rightarrow> nat \<Rightarrow> bool" where
  "cell_available doc row f i =
     (case read doc f of
        None \<Rightarrow> False
      | Some fp \<Rightarrow> el_value fp = [] \<or> read doc (row @ [i + 1]) \<noteq> None)"

definition filter_accepts :: "document \<Rightarrow> ref \<Rightarrow> ref \<Rightarrow> nat \<Rightarrow> bool" where
  "filter_accepts doc row f i =
     (case read doc f of
        None \<Rightarrow> True
      | Some fp \<Rightarrow>
          el_value fp = []
          \<or> (case read doc (row @ [i + 1]) of
                None \<Rightarrow> False
              | Some cp \<Rightarrow> includes_str (toLowerCase (innerText cp)) (toLowerCase (el_value fp))))"

definition row_display :: "document \<Rightarrow> ref list \<Rightarrow> ref \<Rightarrow> properties \<Rightarrow> properties" where
  "row_display doc filters row =
     (case forEach_filters doc row filters 0 True of
        Inl e \<Rightarrow> (\<lambda>a. a)
      | Inr visible \<Rightarrow> style_display_update (\<lambda>_. if visible then [] else ''none''))"

fun processed :: "document \<Rightarrow> ref list \<Rightarrow> ref list \<Rightarrow> ref list" where
  "processed doc filters [] = []"
| "processed doc filters (row # rows) =
     (case forEach_filters doc row filters 0 True of
        Inl e \<Rightarrow> []
      | Inr visible \<Rightarrow> row # processed doc filters rows)"

definition undisplay :: "properties \<Rightarrow> properties" where
  "undisplay = style_display_update (\<lambda>_. [])"

section \<open>The contracts in the words of the specification\<close>


text \<open>
  The bulk-id payload: the values of exactly those of the given checkboxes that are
  checked, in the order given.
\<close>

definition checked_values :: "document \<Rightarrow> ref list \<Rightarrow> string list" where
  "checked_values doc checkboxes =
     map el_value (filter checked (List.map_filter (read doc) checkboxes))"

section \<open>Basic facts about references\<close>

lemma read_modify:
  "read (modify p f d) q = (if q = p then map_option f (read d p) else read d q)"
proof (induction p f d arbitrary: q rule: modify.induct)
  case (1 f a cs)
  then show ?case by (cases q) (simp_all add: read_def)
next
  case (2 i p f a cs)
  show ?case
  proof (cases q)
    case Nil
    then show ?thesis by (simp add: read_def)
  next
    case (Cons j q')
    show ?thesis
    proof (cases "i < length cs")
      case True
      with 2 [of q'] Cons show ?thesis
        by (auto simp: read_def nth_list_update)
    next
      case False
      with Cons show ?thesis by (auto simp: read_def)
    qed
  qed
qed


lemma refs_list_update:
  "i < length cs \<Longrightarrow> refs c' = refs (cs ! i) \<Longrightarrow> refs_list k (cs[i := c']) = refs_list k cs"
proof (induction cs arbitrary: i k)
  case Nil
  then show ?case by simp
next
  case (Cons c cs)
  then show ?case by (cases i) simp_all
qed

lemma refs_modify: "refs (modify p f d) = refs d"
  by (induction p f d rule: modify.induct) (simp_all add: refs_list_update)

lemma map_option_read_modify:
  assumes "\<And>a. g (f a) = g a"
  shows "map_option g (read (modify p f d) q) = map_option g (read d q)"
  using assms by (cases "read d p") (simp_all add: read_modify)

lemma getElementById_modify:
  assumes "\<And>a. el_id (f a) = el_id a"
  shows "getElementById (modify p f d) x = getElementById d x"
  using assms by (simp add: getElementById_def refs_modify map_option_read_modify)

lemma getElementById_read:
  assumes "getElementById d x = Some r"
  shows "\<exists>a. read d r = Some a \<and> el_id a = x"
  using assms by (auto simp: getElementById_def find_Some_iff split: if_splits)

lemma display_of_modify_other:
  assumes "\<And>a. el_id (f a) = el_id a" "\<And>a. style_display (f a) = style_display a"
  shows "display_of (modify p f d) x = display_of d x"
  using assms by (simp add: display_of_def getElementById_modify map_option_read_modify split: option.splits)

lemma classes_of_modify_other:
  assumes "\<And>a. el_id (f a) = el_id a" "\<And>a. classList (f a) = classList a"
  shows "classes_of (modify p f d) x = classes_of d x"
proof -
  have "map_option (\<lambda>a. set (classList a)) (read (modify p f d) q)
        = map_option (\<lambda>a. set (classList a)) (read d q)" for q
    using assms(2) by (intro map_option_read_modify) simp
  with assms(1) show ?thesis
    by (simp add: classes_of_def getElementById_modify split: option.splits)
qed

lemma display_of_modify_same:
  assumes "getElementById d x = Some r" "\<And>a. el_id (f a) = el_id a"
  shows "display_of (modify r f d) x = map_option (\<lambda>a. style_display (f a)) (read d r)"
  using assms by (simp add: display_of_def getElementById_modify read_modify option.map_comp comp_def)

lemma classes_of_modify_same:
  assumes "getElementById d x = Some r" "\<And>a. el_id (f a) = el_id a"
  shows "classes_of (modify r f d) x = map_option (\<lambda>a. set (classList (f a))) (read d r)"
  using assms by (simp add: classes_of_def getElementById_modify read_modify option.map_comp comp_def)

lemma el_id_classList_add [simp]: "el_id (classList_add t a) = el_id a"
  by (simp add: classList_add_def)

lemma el_id_classList_remove [simp]: "el_id (classList_remove t a) = el_id a"
  by (simp add: classList_remove_def)

lemma style_display_classList_add [simp]: "style_display (classList_add t a) = style_display a"
  by (simp add: classList_add_def)

lemma style_display_classList_remove [simp]:
  "style_display (classList_remove t a) = style_display a"
  by (simp add: classList_remove_def)

lemma set_classList_add [simp]: "set (classList (classList_add t a)) = insert t (set (classList a))"
  by (auto simp: classList_add_def)

lemma set_classList_remove [simp]:
  "set (classList (classList_remove t a)) = set (classList a) - {t}"
  by (auto simp: classList_remove_def)

lemma toggleSection_post:
  assumes d: "display_of doc sectionId = Some d"
    and cl: "classes_of doc iconId = Some cl"
  shows "\<exists>doc'. toggleSection sectionId iconId doc = Normal doc'
           \<and> display_of doc' sectionId = Some (if d = ''none'' then ''block'' else ''none'')
           \<and> classes_of doc' iconId
               = Some (if d = ''none'' then insert ''open'' cl else cl - {''open''})"
proof -
  from d obtain s sp where s: "getElementById doc sectionId = Some s"
    and sp: "read doc s = Some sp" and dsp: "style_display sp = d"
    by (auto simp: display_of_def split: option.splits)
  from cl obtain i ip where i: "getElementById doc iconId = Some i"
    and ip: "read doc i = Some ip" and cip: "set (classList ip) = cl"
    by (auto simp: classes_of_def split: option.splits)
  define v where "v = (if d = ''none'' then ''block'' else ''none'')"
  define g where "g = (if d = ''none'' then classList_add ''open'' else classList_remove ''open'')"
  define doc1 where "doc1 = modify s (style_display_update (\<lambda>_. v)) doc"
  define doc' where "doc' = modify i g doc1"
  have g_id: "el_id (g a) = el_id a" and g_disp: "style_display (g a) = style_display a" for a
    by (simp_all add: g_def)
  have run: "toggleSection sectionId iconId doc = Normal doc'"
    using s i sp dsp by (simp add: toggleSection_def doc'_def doc1_def g_def v_def)
  have s1: "getElementById doc1 sectionId = Some s" and i1: "getElementById doc1 iconId = Some i"
    using s i by (simp_all add: doc1_def getElementById_modify)
  have "display_of doc' sectionId = display_of doc1 sectionId"
    unfolding doc'_def using g_id g_disp by (rule display_of_modify_other)
  also have "\<dots> = Some v"
    unfolding doc1_def using s sp by (simp add: display_of_modify_same)
  finally have disp: "display_of doc' sectionId = Some v" .
  have "read doc1 i = Some (if i = s then style_display_update (\<lambda>_. v) ip else ip)"
    using ip by (auto simp: doc1_def read_modify)
  then have "classes_of doc' iconId = Some (set (classList (g ip)))"
    unfolding doc'_def using i1 g_id
    by (auto simp: classes_of_modify_same g_def classList_add_def classList_remove_def)
  with cip have "classes_of doc' iconId
      = Some (if d = ''none'' then insert ''open'' cl else cl - {''open''})"
    by (simp add: g_def)
  with run disp show ?thesis by (auto simp: v_def)
qed

section \<open>Property assignments keep the rest of the document\<close>

lemma deref_modify_refs:
  "map_option refs (deref (modify p f d) q) = map_option refs (deref d q)"
proof (induction p f d arbitrary: q rule: modify.induct)
  case (1 f a cs)
  then show ?case by (cases q) simp_all
next
  case (2 i p f a cs)
  show ?case
  proof (cases q)
    case Nil
    then show ?thesis
      using refs_modify [of "i # p" f "Element a cs"] by simp
  next
    case (Cons j q')
    with 2 [of q'] show ?thesis
      by (auto simp: nth_list_update)
  qed
qed

lemma frame_refl: "frame g d d"
  by (simp add: frame_def)

lemma frame_trans: "frame g d d' \<Longrightarrow> frame g d' d'' \<Longrightarrow> frame g d d''"
  by (simp add: frame_def)

lemma frame_modify:
  assumes "\<And>a. g (f a) = g a"
  shows "frame g d (modify p f d)"
  using assms by (simp add: frame_def deref_modify_refs map_option_read_modify)

lemma frame_read:
  assumes "frame g d d'" and "\<And>a. h (g a) = h a"
  shows "map_option h (read d q) = map_option h (read d' q)"
proof -
  have "map_option h (read d q) = map_option h (map_option g (read d q))"
    using assms(2) by (simp add: option.map_comp comp_def)
  also have "\<dots> = map_option h (map_option g (read d' q))"
    using assms(1) by (simp add: frame_def)
  also have "\<dots> = map_option h (read d' q)"
    using assms(2) by (simp add: option.map_comp comp_def)
  finally show ?thesis .
qed

lemma frame_refs: "frame g d d' \<Longrightarrow> refs d = refs d'"
  unfolding frame_def
proof -
  assume "(\<forall>q. map_option refs (deref d q) = map_option refs (deref d' q))
     \<and> (\<forall>q. map_option g (read d q) = map_option g (read d' q))"
  then have "map_option refs (deref d []) = map_option refs (deref d' [])" by blast
  then show ?thesis by simp
qed

lemma frame_read_None: "frame g d d' \<Longrightarrow> read d q = None \<longleftrightarrow> read d' q = None"
  by (metis frame_def option.map_disc_iff)

lemma frame_getElementById:
  assumes "frame g d d'" and "\<And>a. el_id (g a) = el_id a"
  shows "getElementById d' x = getElementById d x"
proof -
  have "map_option el_id (read d' q) = map_option el_id (read d q)" for q
    using frame_read [of g d d' el_id q] assms by simp
  then show ?thesis
    using frame_refs [OF assms(1)] by (simp add: getElementById_def)
qed

lemma matches_cong:
  assumes tag: "\<And>q. map_option tagName (read d q) = map_option tagName (read d' q)"
    and cls: "\<And>q. map_option classList (read d q) = map_option classList (read d' q)"
    and chk: "static sel \<or> (\<forall>q. map_option checked (read d q) = map_option checked (read d' q))"
  shows "matches d sel r = matches d' sel r"
  using chk
proof (induction sel arbitrary: r)
  case (Tag t)
  from tag [of r] show ?case by (auto split: option.splits)
next
  case (Class c)
  from cls [of r] show ?case by (auto split: option.splits)
next
  case Checked
  then have "map_option checked (read d r) = map_option checked (read d' r)" by simp
  then show ?case by (auto split: option.splits)
next
  case (Compound s t)
  then show ?case by auto
next
  case (Descendant s t)
  then show ?case by (auto simp: list_ex_iff)
qed

lemma frame_querySelectorAll:
  assumes fr: "frame g d d'"
    and tag: "\<And>a. tagName (g a) = tagName a"
    and cls: "\<And>a. classList (g a) = classList a"
    and chk: "static sel \<or> (\<forall>a. checked (g a) = checked a)"
  shows "querySelectorAll d' el sel = querySelectorAll d el sel"
proof -
  have m: "matches d sel r = matches d' sel r" for r
  proof (rule matches_cong)
    show "map_option tagName (read d q) = map_option tagName (read d' q)" for q
      using fr tag by (rule frame_read)
    show "map_option classList (read d q) = map_option classList (read d' q)" for q
      using fr cls by (rule frame_read)
    show "static sel \<or> (\<forall>q. map_option checked (read d q) = map_option checked (read d' q))"
    proof (cases "static sel")
      case True
      then show ?thesis by simp
    next
      case False
      with chk have c: "checked (g a) = checked a" for a by simp
      have "map_option checked (read d q) = map_option checked (read d' q)" for q
        using fr c by (rule frame_read)
      then show ?thesis by simp
    qed
  qed
  then have m': "matches d' sel = matches d sel" by (intro ext) simp
  have "map_option refs (deref d el) = map_option refs (deref d' el)"
    using fr by (simp add: frame_def)
  then show ?thesis
    by (cases "deref d el"; cases "deref d' el") (simp_all add: querySelectorAll_def m')
qed

lemma matches_read: "matches d sel r \<Longrightarrow> \<exists>a. read d r = Some a"
  by (induction sel arbitrary: r) (auto split: option.splits)

lemma querySelectorAll_read:
  "r \<in> set (querySelectorAll d el sel) \<Longrightarrow> \<exists>a. read d r = Some a"
  by (auto simp: querySelectorAll_def matches_read split: option.splits)


lemma read_foldl_modify_at:
  assumes "\<And>r a. F r (F r a) = F r a"
  shows "read (foldl (\<lambda>d r. modify r (F r) d) doc rs) q
         = (if q \<in> set rs then map_option (F q) (read doc q) else read doc q)"
  using assms
proof (induction rs arbitrary: doc)
  case Nil
  then show ?case by simp
next
  case (Cons r rs)
  then show ?case
    by (cases "read doc q") (auto simp: read_modify)
qed

lemma frame_foldl_modify_at:
  assumes "\<And>r a. g (F r a) = g a"
  shows "frame g doc (foldl (\<lambda>d r. modify r (F r) d) doc rs)"
proof (induction rs arbitrary: doc)
  case Nil
  then show ?case by (simp add: frame_refl)
next
  case (Cons r rs)
  have "frame g doc (modify r (F r) doc)" using assms by (intro frame_modify)
  with Cons [of "modify r (F r) doc"] show ?case
    by (auto intro: frame_trans)
qed


section \<open>The loops of the column filter\<close>



lemma toLowerCase_Nil_iff: "toLowerCase s = [] \<longleftrightarrow> s = []"
  by (simp add: toLowerCase_def)

lemma forEach_filters_eq:
  "forEach_filters d r fs k v =
     (if \<forall>j<length fs. cell_available d r (fs ! j) (k + j)
      then Inr (v \<and> (\<forall>j<length fs. filter_accepts d r (fs ! j) (k + j)))
      else Inl TypeError)"
proof (induction fs arbitrary: k v)
  case Nil
  then show ?case by simp
next
  case (Cons f fs)
  have av: "(\<forall>j<length (f # fs). cell_available d r ((f # fs) ! j) (k + j))
      \<longleftrightarrow> cell_available d r f k \<and> (\<forall>j<length fs. cell_available d r (fs ! j) (k + 1 + j))"
    by (auto simp: less_Suc_eq_0_disj)
  have ac: "(\<forall>j<length (f # fs). filter_accepts d r ((f # fs) ! j) (k + j))
      \<longleftrightarrow> filter_accepts d r f k \<and> (\<forall>j<length fs. filter_accepts d r (fs ! j) (k + 1 + j))"
    by (auto simp: less_Suc_eq_0_disj)
  show ?case
  proof (cases "read d f")
    case None
    then have "\<not> cell_available d r f k" by (simp add: cell_available_def)
    with None show ?thesis unfolding av by simp
  next
    case (Some fp)
    show ?thesis
    proof (cases "el_value fp = []")
      case True
      with Some have "cell_available d r f k" "filter_accepts d r f k"
        by (simp_all add: cell_available_def filter_accepts_def)
      moreover have "forEach_filters d r (f # fs) k v = forEach_filters d r fs (k + 1) v"
        using Some True by (simp add: toLowerCase_Nil_iff)
      ultimately show ?thesis unfolding av ac by (simp only: Cons.IH simp_thms)
    next
      case False
      show ?thesis
      proof (cases "read d (r @ [k + 1])")
        case None
        with Some False have "\<not> cell_available d r f k" by (simp add: cell_available_def)
        moreover have "forEach_filters d r (f # fs) k v = Inl TypeError"
          using Some False None by (simp add: toLowerCase_Nil_iff)
        ultimately show ?thesis unfolding av by simp
      next
        case cell: (Some cp)
        let ?inc = "includes_str (toLowerCase (innerText cp)) (toLowerCase (el_value fp))"
        from Some False cell have a: "cell_available d r f k"
          and b: "filter_accepts d r f k \<longleftrightarrow> ?inc"
          by (simp_all add: cell_available_def filter_accepts_def)
        have "forEach_filters d r (f # fs) k v = forEach_filters d r fs (k + 1) (v \<and> ?inc)"
          using Some False cell by (simp add: toLowerCase_Nil_iff)
        then show ?thesis unfolding av ac using a b by (simp only: Cons.IH simp_thms conj_assoc)
      qed
    qed
  qed
qed

lemma frame_read_Some:
  assumes "frame g d d'" and "\<And>a. h (g a) = h a" and "read d q = Some a"
  obtains a' where "read d' q = Some a'" and "h a' = h a"
proof -
  have "map_option h (read d' q) = map_option h (read d q)"
    using frame_read [where h = h, OF assms(1,2), of q] by simp
  with assms(3) have "map_option h (read d' q) = Some (h a)" by simp
  then show ?thesis using that by auto
qed

lemma frame_cell_available:
  assumes fr: "frame g d d'" and ev: "\<And>a. el_value (g a) = el_value a"
  shows "cell_available d' r f i = cell_available d r f i"
proof -
  have v: "map_option el_value (read d f) = map_option el_value (read d' f)"
    using fr ev by (rule frame_read)
  have n: "read d (r @ [i + 1]) = None \<longleftrightarrow> read d' (r @ [i + 1]) = None"
    using fr by (rule frame_read_None)
  show ?thesis
  proof (cases "read d f")
    case None
    with v have "read d' f = None" by simp
    with None show ?thesis by (simp add: cell_available_def)
  next
    case (Some fp)
    from frame_read_Some [where h = el_value, OF fr ev Some]
    obtain fp' where "read d' f = Some fp'" "el_value fp' = el_value fp" by blast
    with Some n show ?thesis by (simp add: cell_available_def)
  qed
qed

lemma frame_filter_accepts:
  assumes fr: "frame g d d'" and ev: "\<And>a. el_value (g a) = el_value a"
    and it: "\<And>a. innerText (g a) = innerText a"
  shows "filter_accepts d' r f i = filter_accepts d r f i"
proof -
  have v: "map_option el_value (read d f) = map_option el_value (read d' f)"
    using fr ev by (rule frame_read)
  have t: "map_option innerText (read d (r @ [i + 1])) = map_option innerText (read d' (r @ [i + 1]))"
    using fr it by (rule frame_read)
  show ?thesis
  proof (cases "read d f")
    case None
    with v have "read d' f = None" by simp
    with None show ?thesis by (simp add: filter_accepts_def)
  next
    case (Some fp)
    from frame_read_Some [where h = el_value, OF fr ev Some]
    obtain fp' where fp': "read d' f = Some fp'" "el_value fp' = el_value fp" by blast
    show ?thesis
    proof (cases "read d (r @ [i + 1])")
      case None
      with t have "read d' (r @ [i + 1]) = None" by simp
      with None Some fp' show ?thesis by (simp add: filter_accepts_def)
    next
      case cell: (Some cp)
      from frame_read_Some [where h = innerText, OF fr it cell]
      obtain cp' where "read d' (r @ [i + 1]) = Some cp'" "innerText cp' = innerText cp"
        by blast
      with cell Some fp' show ?thesis by (simp add: filter_accepts_def)
    qed
  qed
qed

lemma frame_forEach_filters:
  assumes "frame g d d'" and "\<And>a. el_value (g a) = el_value a"
    and "\<And>a. innerText (g a) = innerText a"
  shows "forEach_filters d' r fs k v = forEach_filters d r fs k v"
  using assms
  by (simp only: forEach_filters_eq frame_cell_available [OF assms(1,2)]
      frame_filter_accepts [OF assms])

lemma undisplay_row_display: "undisplay (row_display d fs r a) = undisplay a"
  by (simp add: undisplay_def row_display_def split: sum.splits)

lemma row_display_idem: "row_display d fs r (row_display d fs r a) = row_display d fs r a"
  by (simp add: row_display_def split: sum.splits)

lemma undisplay_simps:
  "el_id (undisplay a) = el_id a" "tagName (undisplay a) = tagName a"
  "classList (undisplay a) = classList a" "el_value (undisplay a) = el_value a"
  "innerText (undisplay a) = innerText a" "checked (undisplay a) = checked a"
  by (simp_all add: undisplay_def)

lemma forEach_rows_eq:
  assumes "frame undisplay d0 d"
  shows "forEach_rows fs rows d =
     (if processed d0 fs rows = rows then Normal else Throw TypeError)
       (foldl (\<lambda>d r. modify r (row_display d0 fs r) d) d (processed d0 fs rows))"
  using assms
proof (induction rows arbitrary: d)
  case Nil
  then show ?case by simp
next
  case (Cons r rows)
  have same: "forEach_filters d r fs 0 True = forEach_filters d0 r fs 0 True"
    using Cons.prems
    by (rule frame_forEach_filters [where g = undisplay]) (simp_all add: undisplay_simps)
  show ?case
  proof (cases "forEach_filters d0 r fs 0 True")
    case (Inl e)
    then show ?thesis using same by (cases e) simp
  next
    case (Inr v)
    let ?d1 = "modify r (style_display_update (\<lambda>_. if v then [] else ''none'')) d"
    have "frame undisplay d ?d1"
      by (rule frame_modify) (simp add: undisplay_def)
    with Cons.prems have fr1: "frame undisplay d0 ?d1" by (rule frame_trans)
    have rd: "row_display d0 fs r = style_display_update (\<lambda>_. if v then [] else ''none'')"
      using Inr by (simp add: row_display_def)
    have "forEach_rows fs (r # rows) d = forEach_rows fs rows ?d1"
      using same Inr by simp
    also note Cons.IH [OF fr1]
    finally show ?thesis using Inr rd by simp
  qed
qed

lemma processed_all:
  "processed d fs rows = rows \<longleftrightarrow> (\<forall>r\<in>set rows. \<exists>v. forEach_filters d r fs 0 True = Inr v)"
proof (induction rows)
  case Nil
  then show ?case by simp
next
  case (Cons r rows)
  then show ?case by (cases "forEach_filters d r fs 0 True") auto
qed





lemma filterTable_Normal:
  assumes tb: "getElementById doc tableId = Some table"
    and run: "filterTable tableId doc = Normal doc'"
    and row: "row \<in> set (querySelectorAll doc table tbody_tr)"
  shows "map_option style_display (read doc' row)
           = Some (if \<forall>j<length (querySelectorAll doc table filter_input).
                        filter_accepts doc row (querySelectorAll doc table filter_input ! j) j
                   then [] else ''none'')"
    and "frame undisplay doc doc'"
proof -
  define fs where "fs = querySelectorAll doc table filter_input"
  define rows where "rows = querySelectorAll doc table tbody_tr"
  define F where "F = row_display doc fs"
  have eq: "filterTable tableId doc =
      (if processed doc fs rows = rows then Normal else Throw TypeError)
        (foldl (\<lambda>d r. modify r (F r) d) doc (processed doc fs rows))"
    using tb forEach_rows_eq [where ?d0.0 = doc and d = doc and fs = fs and rows = rows, OF frame_refl]
    by (simp add: filterTable_def fs_def rows_def F_def)
  with run have all: "processed doc fs rows = rows"
    by (auto split: if_splits)
  with eq run have doc': "doc' = foldl (\<lambda>d r. modify r (F r) d) doc rows" by simp
  show "frame undisplay doc doc'"
    unfolding doc' F_def
    by (rule frame_foldl_modify_at [where g = undisplay]) (rule undisplay_row_display)
  from row obtain a where a: "read doc row = Some a"
    by (blast dest: querySelectorAll_read)
  from all row obtain v where v: "forEach_filters doc row fs 0 True = Inr v"
    unfolding processed_all rows_def by blast
  then have vv: "v \<longleftrightarrow> (\<forall>j<length fs. filter_accepts doc row (fs ! j) j)"
    by (simp add: forEach_filters_eq split: if_splits)
  have "read doc' row = map_option (F row) (read doc row)"
    unfolding doc' using row
    by (subst read_foldl_modify_at) (simp_all add: F_def row_display_idem rows_def)
  with a v have "map_option style_display (read doc' row) = Some (if v then [] else ''none'')"
    by (simp add: F_def row_display_def)
  then show "map_option style_display (read doc' row)
           = Some (if \<forall>j<length (querySelectorAll doc table filter_input).
                        filter_accepts doc row (querySelectorAll doc table filter_input ! j) j
                   then [] else ''none'')"
    unfolding vv fs_def .
qed

lemma filterTable_completes:
  assumes tb: "getElementById doc tableId = Some table"
    and av: "\<And>row j. row \<in> set (querySelectorAll doc table tbody_tr) \<Longrightarrow>
               j < length (querySelectorAll doc table filter_input) \<Longrightarrow>
               cell_available doc row (querySelectorAll doc table filter_input ! j) j"
  shows "\<exists>doc'. filterTable tableId doc = Normal doc'"
proof -
  define fs where "fs = querySelectorAll doc table filter_input"
  define rows where "rows = querySelectorAll doc table tbody_tr"
  have "\<exists>v. forEach_filters doc r fs 0 True = Inr v" if "r \<in> set rows" for r
    using that av [of r] by (simp add: forEach_filters_eq fs_def rows_def)
  then have "processed doc fs rows = rows" by (simp add: processed_all)
  then show ?thesis
    using tb forEach_rows_eq [where ?d0.0 = doc and d = doc and fs = fs and rows = rows, OF frame_refl]
    by (simp add: filterTable_def fs_def rows_def)
qed

section \<open>Collecting the values of the checked checkboxes\<close>

lemma querySelectorAll_Compound:
  "querySelectorAll d el (Compound s t) = filter (matches d t) (querySelectorAll d el s)"
proof -
  have "matches d (Compound s t) = (\<lambda>r. matches d s r \<and> matches d t r)"
    by (intro ext) simp
  then show ?thesis
    by (cases "deref d el") (simp_all add: querySelectorAll_def conj_commute)
qed

lemma map_value_eq:
  "(\<And>r. r \<in> set rs \<Longrightarrow> \<exists>a. read d r = Some a) \<Longrightarrow>
     map_value d rs = Inr (map el_value (List.map_filter (read d) rs))"
proof (induction rs)
  case Nil
  then show ?case by simp
next
  case (Cons r rs)
  from Cons.prems [of r] obtain a where a: "read d r = Some a" by auto
  have "map_value d rs = Inr (map el_value (List.map_filter (read d) rs))"
    by (rule Cons.IH) (simp add: Cons.prems)
  with a show ?case by simp
qed

lemma map_filter_read_Checked:
  "List.map_filter (read d) (filter (matches d Checked) rs)
     = filter checked (List.map_filter (read d) rs)"
  by (induction rs) (auto split: option.splits)

lemma value_of_modify:
  assumes "getElementById d x = Some h"
  shows "value_of (modify h (el_value_update (\<lambda>_. v)) d) x = Some v"
proof -
  from getElementById_read [OF assms] obtain a where "read d h = Some a" by blast
  moreover have "getElementById (modify h (el_value_update (\<lambda>_. v)) d) x = Some h"
    using assms by (simp add: getElementById_modify)
  ultimately show ?thesis by (simp add: value_of_def read_modify)
qed

lemma collectBulkIds_eq:
  assumes tb: "getElementById doc tableId = Some table"
    and hid: "getElementById doc hiddenInputId = Some h"
  shows "collectBulkIds tableId hiddenInputId doc =
     Normal (modify h (el_value_update (\<lambda>_. JSON_stringify
       (checked_values doc (querySelectorAll doc table input_event_checkbox)))) doc)"
proof -
  let ?C = "querySelectorAll doc table input_event_checkbox"
  have sel: "querySelectorAll doc table input_event_checkbox_checked
             = filter (matches doc Checked) ?C"
    by (simp add: input_event_checkbox_checked_def querySelectorAll_Compound)
  have "map_value doc (filter (matches doc Checked) ?C)
        = Inr (map el_value (List.map_filter (read doc) (filter (matches doc Checked) ?C)))"
    by (rule map_value_eq) (auto dest: querySelectorAll_read)
  then have "map_value doc (filter (matches doc Checked) ?C) = Inr (checked_values doc ?C)"
    by (simp add: checked_values_def map_filter_read_Checked)
  then show ?thesis
    using tb hid by (simp add: collectBulkIds_def sel)
qed

section \<open>Section toggle: the claims\<close>

text \<open>
  C4. On every invocation on a page where the section and the icon exist: if the
  section's inline display reads \<^verbatim>\<open>none\<close>, the call ends normally with the display set
  to \<^verbatim>\<open>block\<close> and \<^verbatim>\<open>open\<close> added to the icon's classes; otherwise it ends normally
  with the display set to \<^verbatim>\<open>none\<close> and \<^verbatim>\<open>open\<close> removed from the icon's classes.
\<close>

theorem toggleSection_transition:
  assumes "display_of doc sectionId = Some d"
    and "classes_of doc iconId = Some cl"
  shows "\<exists>doc'. toggleSection sectionId iconId doc = Normal doc'
           \<and> (if d = ''none''
              then display_of doc' sectionId = Some ''block''
                   \<and> classes_of doc' iconId = Some (insert ''open'' cl)
              else display_of doc' sectionId = Some ''none''
                   \<and> classes_of doc' iconId = Some (cl - {''open''}))"
  using toggleSection_post [OF assms] by auto

theorem toggleSection_transition_witness:
  "display_of (section_page ''none'' [''chevron'']) ''sec'' = Some ''none''
   \<and> classes_of (section_page ''none'' [''chevron'']) ''icon'' = Some {''chevron''}
   \<and> (\<exists>doc'. toggleSection ''sec'' ''icon'' (section_page ''none'' [''chevron'']) = Normal doc'
          \<and> display_of doc' ''sec'' = Some ''block''
          \<and> classes_of doc' ''icon'' = Some {''open'', ''chevron''})"
proof -
  have d: "display_of (section_page ''none'' [''chevron'']) ''sec'' = Some ''none''"
    by code_simp
  have cl: "classes_of (section_page ''none'' [''chevron'']) ''icon'' = Some {''chevron''}"
    by code_simp
  from toggleSection_transition [OF d cl] d cl show ?thesis by simp
qed

text \<open>
  C5. When the section has no inline display (it reads as the empty string), the first
  invocation collapses the section: the display becomes \<^verbatim>\<open>none\<close> and the icon does not
  have the class \<^verbatim>\<open>open\<close> afterwards.
\<close>

theorem toggleSection_unset_collapses:
  assumes "display_of doc sectionId = Some []"
    and "classes_of doc iconId = Some cl"
  shows "\<exists>doc'. toggleSection sectionId iconId doc = Normal doc'
           \<and> display_of doc' sectionId = Some ''none''
           \<and> has_class doc' iconId ''open'' = Some False"
  using toggleSection_post [OF assms] by (auto simp: has_class_def)

theorem toggleSection_unset_collapses_witness:
  "display_of (section_page [] [''chevron'', ''open'']) ''sec'' = Some []
   \<and> has_class (section_page [] [''chevron'', ''open'']) ''icon'' ''open'' = Some True
   \<and> (\<exists>doc'. toggleSection ''sec'' ''icon'' (section_page [] [''chevron'', ''open'']) = Normal doc'
          \<and> display_of doc' ''sec'' = Some ''none''
          \<and> has_class doc' ''icon'' ''open'' = Some False)"
proof -
  have d: "display_of (section_page [] [''chevron'', ''open'']) ''sec'' = Some []"
    by code_simp
  have cl: "classes_of (section_page [] [''chevron'', ''open'']) ''icon''
            = Some {''chevron'', ''open''}"
    by code_simp
  from toggleSection_unset_collapses [OF d cl] d cl show ?thesis
    by (simp add: has_class_def)
qed

text \<open>
  C9. After a single invocation on a page where the section and the icon exist, the two
  agree, whatever they were before: either the display is \<^verbatim>\<open>block\<close> and the icon has
  \<^verbatim>\<open>open\<close>, or the display is \<^verbatim>\<open>none\<close> and the icon does not have \<^verbatim>\<open>open\<close>.
\<close>

theorem toggleSection_consistent:
  assumes "display_of doc sectionId = Some d"
    and "classes_of doc iconId = Some cl"
  shows "\<exists>doc'. toggleSection sectionId iconId doc = Normal doc'
           \<and> (display_of doc' sectionId = Some ''block''
                \<and> has_class doc' iconId ''open'' = Some True
              \<or> display_of doc' sectionId = Some ''none''
                \<and> has_class doc' iconId ''open'' = Some False)"
  using toggleSection_post [OF assms] by (auto simp: has_class_def)

theorem toggleSection_consistent_witness:
  "display_of (section_page ''flex'' [''open'']) ''sec'' = Some ''flex''
   \<and> has_class (section_page ''flex'' [''open'']) ''icon'' ''open'' = Some True
   \<and> toggleSection ''sec'' ''icon'' (section_page ''flex'' [''open''])
       = Normal (section_page ''none'' [])
   \<and> (display_of (section_page ''none'' []) ''sec'' = Some ''block''
        \<and> has_class (section_page ''none'' []) ''icon'' ''open'' = Some True
      \<or> display_of (section_page ''none'' []) ''sec'' = Some ''none''
        \<and> has_class (section_page ''none'' []) ''icon'' ''open'' = Some False)"
proof -
  have d: "display_of (section_page ''flex'' [''open'']) ''sec'' = Some ''flex''"
    by code_simp
  have cl: "classes_of (section_page ''flex'' [''open'']) ''icon'' = Some {''open''}"
    by code_simp
  have run: "toggleSection ''sec'' ''icon'' (section_page ''flex'' [''open''])
             = Normal (section_page ''none'' [])"
    by code_simp
  from toggleSection_consistent [OF d cl] run d cl show ?thesis
    by (simp add: has_class_def)
qed

text \<open>
  C3. The claim that two invocations restore the icon's class for every initial state
  fails: on a page whose section has no inline display and whose icon lacks \<^verbatim>\<open>open\<close>,
  both calls end normally and the icon has \<^verbatim>\<open>open\<close> afterwards.
\<close>

theorem toggleSection_twice_counterexample:
  "has_class (section_page [] [''chevron'']) ''icon'' ''open'' = Some False
   \<and> toggleSection ''sec'' ''icon'' (section_page [] [''chevron''])
       = Normal (section_page ''none'' [''chevron''])
   \<and> toggleSection ''sec'' ''icon'' (section_page ''none'' [''chevron''])
       = Normal (section_page ''block'' [''chevron'', ''open''])
   \<and> has_class (section_page ''block'' [''chevron'', ''open'']) ''icon'' ''open'' = Some True"
  by code_simp

text \<open>
  C3, amended. Two invocations in succession, on a page where the section and the icon
  exist, both end normally and return the section to its original visible or hidden
  state: the display is \<^verbatim>\<open>none\<close> afterwards if it was \<^verbatim>\<open>none\<close> before, and \<^verbatim>\<open>block\<close>
  otherwise. The icon has \<^verbatim>\<open>open\<close> afterwards exactly when the section was not
  \<^verbatim>\<open>none\<close> before; so its class is back to its original presence or absence exactly
  when the icon agreed with the section initially.
\<close>

theorem toggleSection_twice:
  assumes "display_of doc sectionId = Some d"
    and "classes_of doc iconId = Some cl"
  shows "\<exists>doc1 doc2. toggleSection sectionId iconId doc = Normal doc1
           \<and> toggleSection sectionId iconId doc1 = Normal doc2
           \<and> display_of doc2 sectionId = Some (if d = ''none'' then ''none'' else ''block'')
           \<and> has_class doc2 iconId ''open'' = Some (d \<noteq> ''none'')
           \<and> ((has_class doc2 iconId ''open'' = has_class doc iconId ''open'')
                = ((''open'' \<in> cl) = (d \<noteq> ''none'')))"
proof -
  from toggleSection_post [OF assms] obtain doc1
    where r1: "toggleSection sectionId iconId doc = Normal doc1"
      and d1: "display_of doc1 sectionId = Some (if d = ''none'' then ''block'' else ''none'')"
      and c1: "classes_of doc1 iconId
                 = Some (if d = ''none'' then insert ''open'' cl else cl - {''open''})"
    by blast
  from toggleSection_post [OF d1 c1] obtain doc2
    where r2: "toggleSection sectionId iconId doc1 = Normal doc2"
      and d2: "display_of doc2 sectionId = Some (if d = ''none'' then ''none'' else ''block'')"
      and c2: "has_class doc2 iconId ''open'' = Some (d \<noteq> ''none'')"
    by (auto simp: has_class_def split: if_splits)
  have "has_class doc iconId ''open'' = Some (''open'' \<in> cl)"
    using assms(2) by (simp add: has_class_def)
  with r1 r2 d2 c2 show ?thesis by auto
qed

theorem toggleSection_twice_witness:
  "display_of (section_page ''none'' [''chevron'']) ''sec'' = Some ''none''
   \<and> has_class (section_page ''none'' [''chevron'']) ''icon'' ''open'' = Some False
   \<and> (\<exists>doc1 doc2. toggleSection ''sec'' ''icon'' (section_page ''none'' [''chevron'']) = Normal doc1
          \<and> toggleSection ''sec'' ''icon'' doc1 = Normal doc2
          \<and> display_of doc2 ''sec'' = Some ''none''
          \<and> has_class doc2 ''icon'' ''open'' = Some False)"
proof -
  have d: "display_of (section_page ''none'' [''chevron'']) ''sec'' = Some ''none''"
    by code_simp
  have cl: "classes_of (section_page ''none'' [''chevron'']) ''icon'' = Some {''chevron''}"
    by code_simp
  from toggleSection_twice [OF d cl] d cl show ?thesis
    by (auto simp: has_class_def)
qed

section \<open>Select-all toggle: the claim\<close>

text \<open>
  C6. Let the table id resolve and let \<open>C\<close> be the elements matching
  \<^verbatim>\<open>input.event-checkbox\<close> within the table. Invoked with a source checkbox whose
  \<open>checked\<close> is \<open>b\<close>, the call ends normally; afterwards the table is the same element,
  \<open>C\<close> is the same list, and every checkbox in \<open>C\<close> has \<open>checked\<close> equal to \<open>b\<close>,
  whatever it was before.
\<close>

theorem toggleSelectAll_sets_all:
  assumes cb: "read doc checkbox = Some cp"
    and tb: "getElementById doc tableId = Some table"
  shows "\<exists>doc'. toggleSelectAll checkbox tableId doc = Normal doc'
           \<and> getElementById doc' tableId = Some table
           \<and> querySelectorAll doc' table input_event_checkbox
               = querySelectorAll doc table input_event_checkbox
           \<and> (\<forall>c \<in> set (querySelectorAll doc table input_event_checkbox).
                 map_option checked (read doc' c) = Some (checked cp))"
proof -
  define C where "C = querySelectorAll doc table input_event_checkbox"
  define f :: "properties \<Rightarrow> properties" where "f = checked_update (\<lambda>_. checked cp)"
  define g :: "properties \<Rightarrow> properties" where "g = checked_update (\<lambda>_. False)"
  define doc' where "doc' = foldl (\<lambda>d r. modify r f d) doc C"
  have run: "toggleSelectAll checkbox tableId doc = Normal doc'"
    using cb tb by (simp add: toggleSelectAll_def doc'_def C_def f_def)
  have fr: "frame g doc doc'"
    unfolding doc'_def
    by (rule frame_foldl_modify_at [where g = g]) (simp add: f_def g_def)
  have tb': "getElementById doc' tableId = Some table"
    using frame_getElementById [OF fr, of tableId] tb by (simp add: g_def)
  have C': "querySelectorAll doc' table input_event_checkbox = C"
    unfolding C_def
    by (rule frame_querySelectorAll [OF fr]) (simp_all add: g_def input_event_checkbox_def)
  have "map_option checked (read doc' c) = Some (checked cp)" if "c \<in> set C" for c
  proof -
    from that obtain a where a: "read doc c = Some a"
      unfolding C_def by (blast dest: querySelectorAll_read)
    have "read doc' c = map_option f (read doc c)"
      unfolding doc'_def using that
      by (subst read_foldl_modify_at [where F = "\<lambda>_. f"]) (simp_all add: f_def)
    with a show ?thesis by (simp add: f_def)
  qed
  with run tb' C' show ?thesis by (auto simp: C_def)
qed

theorem toggleSelectAll_sets_all_witness:
  "map_option checked (read (events_page []) [1, 0, 0, 0, 0]) = Some True
   \<and> getElementById (events_page []) ''events'' = Some [1]
   \<and> querySelectorAll (events_page []) [1] input_event_checkbox
       = [[1, 1, 0, 0, 0], [1, 1, 1, 0, 0], [1, 1, 2, 0, 0], [1, 1, 3, 0, 0]]
   \<and> map_option checked (read (events_page []) [1, 1, 1, 0, 0]) = Some False
   \<and> (\<exists>doc'. toggleSelectAll [1, 0, 0, 0, 0] ''events'' (events_page []) = Normal doc'
          \<and> map_option checked (read doc' [1, 1, 0, 0, 0]) = Some True
          \<and> map_option checked (read doc' [1, 1, 1, 0, 0]) = Some True
          \<and> map_option checked (read doc' [1, 1, 2, 0, 0]) = Some True
          \<and> map_option checked (read doc' [1, 1, 3, 0, 0]) = Some True)"
proof -
  have cb: "read (events_page []) [1, 0, 0, 0, 0]
            = Some \<lparr>tagName = ''input'', el_id = ''select-all'', classList = [],
                     el_value = ''on'', checked = True, style_display = [], innerText = []\<rparr>"
    by code_simp
  have tb: "getElementById (events_page []) ''events'' = Some [1]"
    by code_simp
  have C: "querySelectorAll (events_page []) [1] input_event_checkbox
           = [[1, 1, 0, 0, 0], [1, 1, 1, 0, 0], [1, 1, 2, 0, 0], [1, 1, 3, 0, 0]]"
    by code_simp
  have u: "map_option checked (read (events_page []) [1, 1, 1, 0, 0]) = Some False"
    by code_simp
  from toggleSelectAll_sets_all [OF cb tb] cb tb C u show ?thesis
    by auto
qed

section \<open>Column filter: the claims\<close>





text \<open>
  C10. Let the table id resolve, and let every filter whose cell is missing in some
  body row (the row has no child at index \<open>i + 1\<close>) have the empty value. Then the call
  ends normally; and if all filter values are empty, every body row has the display
  \<^verbatim>\<open>""\<close> afterwards.
\<close>

theorem filterTable_missing_cells:
  assumes tb: "getElementById doc tableId = Some table"
    and guard: "\<forall>row\<in>set (querySelectorAll doc table tbody_tr).
        \<forall>i<length (querySelectorAll doc table filter_input).
          read doc (row @ [i + 1]) = None \<longrightarrow>
            map_option el_value (read doc (querySelectorAll doc table filter_input ! i)) = Some []"
  shows "\<exists>doc'. filterTable tableId doc = Normal doc'
           \<and> ((\<forall>f\<in>set (querySelectorAll doc table filter_input).
                  map_option el_value (read doc f) = Some [])
               \<longrightarrow> (\<forall>row\<in>set (querySelectorAll doc table tbody_tr).
                      map_option style_display (read doc' row) = Some []))"
proof -
  define fs where "fs = querySelectorAll doc table filter_input"
  define rows where "rows = querySelectorAll doc table tbody_tr"
  have "cell_available doc row (fs ! j) j" if "row \<in> set rows" "j < length fs" for row j
  proof -
    from that(2) have "fs ! j \<in> set fs" by simp
    then obtain fp where fp: "read doc (fs ! j) = Some fp"
      unfolding fs_def by (blast dest: querySelectorAll_read)
    show ?thesis
    proof (cases "read doc (row @ [j + 1])")
      case None
      with guard that have "map_option el_value (read doc (fs ! j)) = Some []"
        by (simp add: fs_def rows_def)
      with fp show ?thesis by (simp add: cell_available_def)
    next
      case (Some cp)
      with fp show ?thesis by (simp add: cell_available_def)
    qed
  qed
  with tb obtain doc' where run: "filterTable tableId doc = Normal doc'"
    using filterTable_completes [of doc tableId table] by (auto simp: fs_def rows_def)
  have "map_option style_display (read doc' row) = Some []"
    if empty: "\<forall>f\<in>set fs. map_option el_value (read doc f) = Some []" and row: "row \<in> set rows"
    for row
  proof -
    have "filter_accepts doc row (fs ! j) j" if "j < length fs" for j
    proof -
      from that have "fs ! j \<in> set fs" by simp
      with empty have "map_option el_value (read doc (fs ! j)) = Some []" by blast
      then show ?thesis by (auto simp: filter_accepts_def split: option.splits)
    qed
    then have "\<forall>j<length fs. filter_accepts doc row (fs ! j) j" by blast
    moreover from row have "row \<in> set (querySelectorAll doc table tbody_tr)"
      by (simp add: rows_def)
    note filterTable_Normal(1) [OF tb run this]
    ultimately show ?thesis by (simp add: fs_def)
  qed
  with run show ?thesis by (auto simp: fs_def rows_def)
qed

theorem filterTable_missing_cells_witness:
  "getElementById (events_page ['''', '''']) ''events'' = Some [1]
   \<and> querySelectorAll (events_page ['''', '''']) [1] filter_input
       = [[1, 0, 0, 1, 0], [1, 0, 0, 2, 0]]
   \<and> querySelectorAll (events_page ['''', '''']) [1] tbody_tr
       = [[1, 1, 0], [1, 1, 1], [1, 1, 2], [1, 1, 3]]
   \<and> read (events_page ['''', '''']) [1, 1, 0, 2] = None
   \<and> map_option style_display (read (events_page ['''', '''']) [1, 1, 3]) = Some ''none''
   \<and> (\<exists>doc'. filterTable ''events'' (events_page ['''', '''']) = Normal doc'
          \<and> map_option style_display (read doc' [1, 1, 0]) = Some []
          \<and> map_option style_display (read doc' [1, 1, 1]) = Some []
          \<and> map_option style_display (read doc' [1, 1, 2]) = Some []
          \<and> map_option style_display (read doc' [1, 1, 3]) = Some [])"
proof -
  let ?P = "events_page ['''', '''']"
  have tb: "getElementById ?P ''events'' = Some [1]"
    by code_simp
  have fs: "querySelectorAll ?P [1] filter_input = [[1, 0, 0, 1, 0], [1, 0, 0, 2, 0]]"
    by code_simp
  have rows: "querySelectorAll ?P [1] tbody_tr = [[1, 1, 0], [1, 1, 1], [1, 1, 2], [1, 1, 3]]"
    by code_simp
  have missing: "read ?P [1, 1, 0, 2] = None"
    by code_simp
  have hidden: "map_option style_display (read ?P [1, 1, 3]) = Some ''none''"
    by code_simp
  have v: "map_option el_value (read ?P [1, 0, 0, 1, 0]) = Some []"
    "map_option el_value (read ?P [1, 0, 0, 2, 0]) = Some []"
    by code_simp+
  have empty: "\<forall>f\<in>set (querySelectorAll ?P [1] filter_input).
      map_option el_value (read ?P f) = Some []"
    unfolding fs using v by simp
  have guard: "\<forall>row\<in>set (querySelectorAll ?P [1] tbody_tr).
      \<forall>i<length (querySelectorAll ?P [1] filter_input).
        read ?P (row @ [i + 1]) = None \<longrightarrow>
          map_option el_value (read ?P (querySelectorAll ?P [1] filter_input ! i)) = Some []"
    using empty by simp
  from filterTable_missing_cells [OF tb guard] empty
  obtain doc' where "filterTable ''events'' ?P = Normal doc'"
    and "\<forall>row\<in>set (querySelectorAll ?P [1] tbody_tr).
           map_option style_display (read doc' row) = Some []"
    by blast
  then have "filterTable ''events'' ?P = Normal doc'
      \<and> map_option style_display (read doc' [1, 1, 0]) = Some []
      \<and> map_option style_display (read doc' [1, 1, 1]) = Some []
      \<and> map_option style_display (read doc' [1, 1, 2]) = Some []
      \<and> map_option style_display (read doc' [1, 1, 3]) = Some []"
    unfolding rows by simp
  then show ?thesis using tb fs rows missing hidden by blast
qed

section \<open>Bulk-id collection: the claims\<close>



text \<open>
  C8. Let the table id and the hidden input's id resolve, and let no element matching
  \<^verbatim>\<open>input.event-checkbox\<close> within the table be checked. The call ends normally, with no
  exception, and the hidden input's value is the two characters \<^verbatim>\<open>[]\<close>.
\<close>

theorem collectBulkIds_none_checked:
  assumes "getElementById doc tableId = Some table"
    and "getElementById doc hiddenInputId = Some h"
    and "\<forall>cb\<in>set (querySelectorAll doc table input_event_checkbox).
           map_option checked (read doc cb) = Some False"
  shows "\<exists>doc'. collectBulkIds tableId hiddenInputId doc = Normal doc'
           \<and> value_of doc' hiddenInputId = Some ''[]''"
proof -
  have "filter checked (List.map_filter (read doc) rs) = []"
    if "\<forall>cb\<in>set rs. map_option checked (read doc cb) = Some False" for rs
    using that by (induction rs) (auto split: option.splits)
  with assms(3)
  have "checked_values doc (querySelectorAll doc table input_event_checkbox) = []"
    by (simp add: checked_values_def)
  then show ?thesis
    using collectBulkIds_eq [OF assms(1,2)] value_of_modify [OF assms(2)]
    by (simp add: JSON_stringify_def)
qed

theorem collectBulkIds_none_checked_witness:
  "getElementById unselected_page ''events'' = Some [0]
   \<and> getElementById unselected_page ''bulk-ids'' = Some [1]
   \<and> querySelectorAll unselected_page [0] input_event_checkbox
       = [[0, 0, 0, 0, 0], [0, 0, 1, 0, 0]]
   \<and> value_of unselected_page ''bulk-ids'' = Some ''stale''
   \<and> (\<exists>doc'. collectBulkIds ''events'' ''bulk-ids'' unselected_page = Normal doc'
          \<and> value_of doc' ''bulk-ids'' = Some ''[]'')"
proof -
  let ?P = "unselected_page"
  have tb: "getElementById ?P ''events'' = Some [0]"
    by code_simp
  have hid: "getElementById ?P ''bulk-ids'' = Some [1]"
    by code_simp
  have C: "querySelectorAll ?P [0] input_event_checkbox = [[0, 0, 0, 0, 0], [0, 0, 1, 0, 0]]"
    by code_simp
  have old: "value_of ?P ''bulk-ids'' = Some ''stale''"
    by code_simp
  have u: "map_option checked (read ?P [0, 0, 0, 0, 0]) = Some False"
    "map_option checked (read ?P [0, 0, 1, 0, 0]) = Some False"
    by code_simp+
  have none: "\<forall>cb\<in>set (querySelectorAll ?P [0] input_event_checkbox).
      map_option checked (read ?P cb) = Some False"
    unfolding C using u by simp
  from collectBulkIds_none_checked [OF tb hid none] tb hid C old show ?thesis
    by simp
qed

end
